theory Spec2Isabelle
  imports Main "HOL-Library.Multiset"
begin

section \<open>The game database and the state database\<close>

text \<open>
  The checker's database layer (\<^verbatim>\<open>ctf_gameserver/checker/database.py\<close>) talks to two
  PostgreSQL databases. Each table the queries touch is a list of rows; a nullable column
  is an \<open>option\<close>. \<^verbatim>\<open>NOW()\<close> is a parameter of every operation that uses it.
\<close>

type_synonym timestamp = int

type_synonym blob = string

record gamecontrol_row =
  start :: timestamp
  valid_ticks :: nat
  tick_duration :: nat
  current_tick :: int

record service_row =
  service_pk :: int
  service_name :: string
  service_slug :: string

record team_row =
  user_id :: int
  net_number :: int

record flag_row =
  flag_id :: int
  flag_service_id :: int
  protecting_team_id :: int
  flag_tick :: int
  placement_start :: "timestamp option"
  placement_end :: "timestamp option"

record statuscheck_row =
  sc_service_id :: int
  sc_team_id :: int
  sc_tick :: int
  sc_status :: int
  sc_timestamp :: timestamp

record checkerstate_row =
  cs_service_id :: int
  cs_team_net_no :: int
  cs_identifier :: string
  cs_data :: blob

text \<open>
  \<^verbatim>\<open>scoring_gamecontrol\<close> is the singleton table of the competition: it holds its one row
  or none (\<^verbatim>\<open>fetchone()\<close> on it is \<open>None\<close> before the competition is configured).
\<close>

record game_db =
  scoring_gamecontrol :: "gamecontrol_row option"
  scoring_service :: "service_row list"
  registration_team :: "team_row list"
  scoring_flag :: "flag_row list"
  scoring_statuscheck :: "statuscheck_row list"

type_synonym state_db = "checkerstate_row list"

datatype error = DBDataError | AuthorizationError | InvalidRowCount

text \<open>
  The dictionary \<^verbatim>\<open>get_new_tasks\<close> returns for one task, with its keys
  \<^verbatim>\<open>team_id\<close>, \<^verbatim>\<open>team_net_no\<close> and \<^verbatim>\<open>tick\<close>.
\<close>

record task =
  task_team_id :: int
  task_team_net_no :: int
  task_tick :: int

section \<open>Transactions\<close>

text \<open>
  Modelled from the spec: \<^verbatim>\<open>transaction_cursor\<close> (\<^verbatim>\<open>ctf_gameserver.lib.database\<close>) is
  imported by the checker's database layer and is not among the sources. The spec gives
  its contract: the statements of one \<^verbatim>\<open>with\<close> block are one atomic unit (a failure
  inside leaves no partial effect and reaches the caller); in the read-restricted
  permission mode (\<^verbatim>\<open>prohibit_changes\<close>) an attempt to mutate state fails with an
  authorization error. The body of a block is a function from the permission mode and the
  database to an error or the new database with the block's value.
\<close>

definition transaction_cursor ::
  "'db \<Rightarrow> bool \<Rightarrow> (bool \<Rightarrow> 'db \<Rightarrow> error + 'db \<times> 'a) \<Rightarrow> 'db \<times> (error + 'a)" where
  "transaction_cursor db_conn prohibit_changes body =
     (case body prohibit_changes db_conn of
        Inl e \<Rightarrow> (db_conn, Inl e)
      | Inr (db', r) \<Rightarrow> (db', Inr r))"

text \<open>
  Modelled from the spec: one mutating statement (\<^verbatim>\<open>INSERT\<close>, \<^verbatim>\<open>UPDATE\<close>, and the
  row-locking \<^verbatim>\<open>SELECT ... FOR UPDATE\<close> that begins a claim) run on a cursor of the given
  permission mode.
\<close>

definition execute_write :: "bool \<Rightarrow> ('db \<Rightarrow> 'db) \<Rightarrow> 'db \<Rightarrow> error + 'db" where
  "execute_write prohibit_changes stmt db =
     (if prohibit_changes then Inl AuthorizationError else Inr (stmt db))"

text \<open>\<^verbatim>\<open>cursor.fetchone()\<close>: the first row of the result, \<open>None\<close> when there is none.\<close>

fun fetchone :: "'a list \<Rightarrow> 'a option" where
  "fetchone [] = None"
| "fetchone (r # _) = Some r"

text \<open>
  \<^verbatim>\<open>ORDER BY RANDOM()\<close>: the order of the rows is chosen by the database. The choice is the
  parameter \<open>seed\<close>: each number picks the next row among those still left, so every
  order of the rows is the result of some seed, and every result is a reordering.
\<close>

fun order_by_random :: "nat list \<Rightarrow> 'a list \<Rightarrow> 'a list" where
  "order_by_random _ [] = []"
| "order_by_random [] (x # xs) = x # xs"
| "order_by_random (r # rs) (x # xs) =
     (let i = r mod length (x # xs)
      in (x # xs) ! i # order_by_random rs (take i (x # xs) @ drop (Suc i) (x # xs)))"

section \<open>The checker's database operations\<close>

text \<open>
  \<^verbatim>\<open>get_current_tick\<close>: the current tick of the game database, \<^verbatim>\<open>DBDataError\<close> when
  the competition is not configured.
\<close>

definition get_current_tick :: "game_db \<Rightarrow> bool \<Rightarrow> game_db \<times> (error + int)" where
  "get_current_tick db_conn prohibit_changes =
     (case transaction_cursor db_conn prohibit_changes
             (\<lambda>_ db. Inr (db, fetchone (map current_tick (case scoring_gamecontrol db of
                                                             None \<Rightarrow> [] | Some c \<Rightarrow> [c])))) of
        (db', Inl e) \<Rightarrow> (db', Inl e)
      | (db', Inr None) \<Rightarrow> (db', Inl DBDataError)
      | (db', Inr (Some t)) \<Rightarrow> (db', Inr t))"

text \<open>
  The rows of \<^verbatim>\<open>scoring_flag flag, scoring_gamecontrol control\<close> with
  \<^verbatim>\<open>flag.tick = control.current_tick AND flag.service_id = %s\<close>.
\<close>

definition current_tick_flags :: "game_db \<Rightarrow> int \<Rightarrow> flag_row list" where
  "current_tick_flags db service_id =
     (case scoring_gamecontrol db of
        None \<Rightarrow> []
      | Some control \<Rightarrow>
          filter (\<lambda>flag. flag_tick flag = current_tick control \<and> flag_service_id flag = service_id)
            (scoring_flag db))"

definition get_task_count :: "game_db \<Rightarrow> int \<Rightarrow> bool \<Rightarrow> game_db \<times> (error + nat)" where
  "get_task_count db_conn service_id prohibit_changes =
     transaction_cursor db_conn prohibit_changes
       (\<lambda>_ db. Inr (db, length (current_tick_flags db service_id)))"

text \<open>
  The rows of the \<^verbatim>\<open>SELECT\<close> of \<^verbatim>\<open>get_new_tasks\<close> before ordering and limit:
  \<^verbatim>\<open>(flag.id, flag.protecting_team_id, flag.tick, team.net_number)\<close> for every open flag of
  the service in the current tick, joined with the team that protects it.
\<close>

definition open_task_rows :: "game_db \<Rightarrow> int \<Rightarrow> (int \<times> int \<times> int \<times> int) list" where
  "open_task_rows db service_id =
     [(flag_id flag, protecting_team_id flag, flag_tick flag, net_number team).
        flag \<leftarrow> current_tick_flags db service_id,
        team \<leftarrow> registration_team db,
        placement_start flag = None \<and> protecting_team_id flag = user_id team]"

text \<open>\<^verbatim>\<open>cursor.fetchall()\<close> of that \<^verbatim>\<open>SELECT\<close>, with \<^verbatim>\<open>ORDER BY RANDOM() LIMIT %s\<close>.\<close>

definition fetch_tasks :: "game_db \<Rightarrow> int \<Rightarrow> int \<Rightarrow> nat list \<Rightarrow> (int \<times> int \<times> int \<times> int) list" where
  "fetch_tasks db service_id task_count seed =
     take (nat task_count) (order_by_random seed (open_task_rows db service_id))"

text \<open>\<^verbatim>\<open>UPDATE scoring_flag SET placement_start = NOW() WHERE id = %s\<close>.\<close>

definition mark_in_progress :: "timestamp \<Rightarrow> int \<Rightarrow> game_db \<Rightarrow> game_db" where
  "mark_in_progress now fid db =
     db\<lparr>scoring_flag :=
          map (\<lambda>flag. if flag_id flag = fid then flag\<lparr>placement_start := Some now\<rparr> else flag)
            (scoring_flag db)\<rparr>"

text \<open>\<^verbatim>\<open>cursor.executemany\<close>: the statement once per parameter, stopping at an error.\<close>

fun executemany :: "bool \<Rightarrow> ('p \<Rightarrow> 'db \<Rightarrow> 'db) \<Rightarrow> 'p list \<Rightarrow> 'db \<Rightarrow> error + 'db" where
  "executemany prohibit_changes stmt [] db = Inr db"
| "executemany prohibit_changes stmt (p # ps) db =
     (case execute_write prohibit_changes (stmt p) db of
        Inl e \<Rightarrow> Inl e
      | Inr db' \<Rightarrow> executemany prohibit_changes stmt ps db')"

definition task_dict :: "int \<times> int \<times> int \<times> int \<Rightarrow> task" where
  "task_dict row =
     (case row of (fid, team, tk, net) \<Rightarrow> \<lparr>task_team_id = team, task_team_net_no = net, task_tick = tk\<rparr>)"

text \<open>
  \<^verbatim>\<open>get_new_tasks\<close>. The locking \<^verbatim>\<open>SELECT\<close> runs first, then the \<^verbatim>\<open>UPDATE\<close> of every
  fetched flag, in one transaction. PostgreSQL rejects a negative \<^verbatim>\<open>LIMIT\<close>.
\<close>

definition get_new_tasks ::
  "game_db \<Rightarrow> int \<Rightarrow> int \<Rightarrow> timestamp \<Rightarrow> nat list \<Rightarrow> bool \<Rightarrow> game_db \<times> (error + task list)" where
  "get_new_tasks db_conn service_id task_count now seed prohibit_changes =
     transaction_cursor db_conn prohibit_changes
       (\<lambda>mode db.
          case execute_write mode id db of
            Inl e \<Rightarrow> Inl e
          | Inr db0 \<Rightarrow>
              if task_count < 0 then Inl InvalidRowCount
              else
                let tasks = fetch_tasks db0 service_id task_count seed
                in (case executemany mode (mark_in_progress now) (map fst tasks) db0 of
                      Inl e \<Rightarrow> Inl e
                    | Inr db' \<Rightarrow> Inr (db', map task_dict tasks)))"

text \<open>The two mutating statements of \<^verbatim>\<open>commit_result\<close>.\<close>

definition insert_statuscheck :: "int \<Rightarrow> int \<Rightarrow> int \<Rightarrow> int \<Rightarrow> timestamp \<Rightarrow> game_db \<Rightarrow> game_db" where
  "insert_statuscheck service_id team tk result now db =
     db\<lparr>scoring_statuscheck := scoring_statuscheck db @
          [\<lparr>sc_service_id = service_id, sc_team_id = team, sc_tick = tk, sc_status = result,
            sc_timestamp = now\<rparr>]\<rparr>"

definition set_placement_end :: "int \<Rightarrow> int \<Rightarrow> int \<Rightarrow> timestamp \<Rightarrow> game_db \<Rightarrow> game_db" where
  "set_placement_end service_id team tk now db =
     db\<lparr>scoring_flag :=
          map (\<lambda>flag. if flag_service_id flag = service_id \<and> protecting_team_id flag = team
                          \<and> flag_tick flag = tk
                       then flag\<lparr>placement_end := Some now\<rparr> else flag)
            (scoring_flag db)\<rparr>"

definition commit_result ::
  "game_db \<Rightarrow> int \<Rightarrow> int \<Rightarrow> int \<Rightarrow> int \<Rightarrow> timestamp \<Rightarrow> bool \<Rightarrow> int option
     \<Rightarrow> game_db \<times> (error + unit)" where
  "commit_result db_conn service_id team_net_no tk result now prohibit_changes fake_team_id =
     transaction_cursor db_conn prohibit_changes
       (\<lambda>mode db.
          let data = fetchone (map user_id
                       (filter (\<lambda>team. net_number team = team_net_no) (registration_team db)));
              resolved = (case data of
                            None \<Rightarrow> (case fake_team_id of None \<Rightarrow> None | Some fake \<Rightarrow> Some fake)
                          | Some uid \<Rightarrow> Some uid)
          in case resolved of
               None \<Rightarrow> Inr (db, ())
             | Some team \<Rightarrow>
                 (case execute_write mode (insert_statuscheck service_id team tk result now) db of
                    Inl e \<Rightarrow> Inl e
                  | Inr db1 \<Rightarrow>
                      (case execute_write mode (set_placement_end service_id team tk now) db1 of
                         Inl e \<Rightarrow> Inl e
                       | Inr db2 \<Rightarrow> Inr (db2, ()))))"

text \<open>The key of a row of \<^verbatim>\<open>checkerstate\<close>: the columns of its uniqueness constraint.\<close>

definition cs_key :: "checkerstate_row \<Rightarrow> int \<times> int \<times> string" where
  "cs_key row = (cs_service_id row, cs_team_net_no row, cs_identifier row)"

definition load_state ::
  "state_db \<Rightarrow> int \<Rightarrow> int \<Rightarrow> string \<Rightarrow> bool \<Rightarrow> state_db \<times> (error + blob option)" where
  "load_state db_conn service_id team_net_no identifier prohibit_changes =
     (case transaction_cursor db_conn prohibit_changes
             (\<lambda>_ db. Inr (db, fetchone (map cs_data
                (filter (\<lambda>row. cs_service_id row = service_id \<and> cs_team_net_no row = team_net_no
                                \<and> cs_identifier row = identifier) db)))) of
        (db', Inl e) \<Rightarrow> (db', Inl e)
      | (db', Inr None) \<Rightarrow> (db', Inr None)
      | (db', Inr (Some data)) \<Rightarrow> (db', Inr (Some data)))"

text \<open>
  \<^verbatim>\<open>INSERT ... ON CONFLICT (service_id, team_net_no, identifier) DO UPDATE SET data =
  EXCLUDED.data\<close>: a row of the same key takes the new data, otherwise the row is added.
\<close>

definition upsert_state :: "int \<Rightarrow> int \<Rightarrow> string \<Rightarrow> blob \<Rightarrow> state_db \<Rightarrow> state_db" where
  "upsert_state service_id team_net_no identifier data db =
     (if (service_id, team_net_no, identifier) \<in> set (map cs_key db)
      then map (\<lambda>row. if cs_key row = (service_id, team_net_no, identifier)
                       then row\<lparr>cs_data := data\<rparr> else row) db
      else db @ [\<lparr>cs_service_id = service_id, cs_team_net_no = team_net_no,
                  cs_identifier = identifier, cs_data = data\<rparr>])"

definition store_state ::
  "state_db \<Rightarrow> int \<Rightarrow> int \<Rightarrow> string \<Rightarrow> blob \<Rightarrow> bool \<Rightarrow> state_db \<times> (error + unit)" where
  "store_state db_conn service_id team_net_no identifier data prohibit_changes =
     transaction_cursor db_conn prohibit_changes
       (\<lambda>mode db.
          case execute_write mode (upsert_state service_id team_net_no identifier data) db of
            Inl e \<Rightarrow> Inl e
          | Inr db' \<Rightarrow> Inr (db', ()))"

section \<open>Sequences of checker operations\<close>

text \<open>
  What the checker processes do to the game database: claims (\<^verbatim>\<open>get_new_tasks\<close>) and
  commits (\<^verbatim>\<open>commit_result\<close>), each with its arguments, one transaction after the other.
\<close>

datatype operation =
  Claim int int timestamp "nat list" bool
| Commit int int int int timestamp bool "int option"

fun apply_operation :: "game_db \<Rightarrow> operation \<Rightarrow> game_db" where
  "apply_operation db (Claim service_id task_count now seed prohibit_changes) =
     fst (get_new_tasks db service_id task_count now seed prohibit_changes)"
| "apply_operation db (Commit service_id team_net_no tk result now prohibit_changes fake_team_id) =
     fst (commit_result db service_id team_net_no tk result now prohibit_changes fake_team_id)"

fun run_operations :: "game_db \<Rightarrow> operation list \<Rightarrow> game_db" where
  "run_operations db [] = db"
| "run_operations db (x # xs) = run_operations (apply_operation db x) xs"

text \<open>
  What the checker scripts do to the state database: a run of \<^verbatim>\<open>store_state\<close> calls,
  each with its service, net number, identifier and data.
\<close>

fun run_stores :: "state_db \<Rightarrow> (int \<times> int \<times> string \<times> blob) list \<Rightarrow> state_db" where
  "run_stores db [] = db"
| "run_stores db ((service_id, team_net_no, identifier, data) # xs) =
     run_stores (fst (store_state db service_id team_net_no identifier data False)) xs"

section \<open>The tick scheduler\<close>

text \<open>
  Modelled from the spec: \<^verbatim>\<open>main_loop_step\<close> (\<^verbatim>\<open>ctf_gameserver.controller.controller\<close>)
  is not among the sources, only its test \<^verbatim>\<open>tests/controller/test_main_loop.py\<close> is. The
  step follows the decision rules of the spec's section 4.1 in their order. Instants and
  idle durations are whole seconds; the wall clock is read once and is the parameter
  \<open>now\<close>; the result is the database after the step and the idle durations of the step,
  in the order of the waits. The spec does not say what a tick duration of zero does to
  the quotient of rule 3; the quotient is \<open>div\<close>, and the properties that read it
  ask for a positive tick duration.
\<close>

text \<open>
  Modelled from the spec: the fan-out of rule 5, one open WorkItem per (service, team)
  pair with the new tick, under identifiers the table has not used.
\<close>

definition next_flag_id :: "game_db \<Rightarrow> int" where
  "next_flag_id db = fold max (map flag_id (scoring_flag db)) 0 + 1"

definition new_flags :: "game_db \<Rightarrow> int \<Rightarrow> flag_row list" where
  "new_flags db new_tick =
     map (\<lambda>(i, service, team).
            \<lparr>flag_id = next_flag_id db + int i, flag_service_id = service_pk service,
             protecting_team_id = user_id team, flag_tick = new_tick,
             placement_start = None, placement_end = None\<rparr>)
       (enumerate 0 (List.product (scoring_service db) (registration_team db)))"

definition increase_tick :: "game_db \<Rightarrow> gamecontrol_row \<Rightarrow> game_db" where
  "increase_tick db control =
     (let new_tick = current_tick control + 1
      in db\<lparr>scoring_gamecontrol := Some (control\<lparr>current_tick := new_tick\<rparr>),
            scoring_flag := scoring_flag db @ new_flags db new_tick\<rparr>)"

definition main_loop_step :: "game_db \<Rightarrow> timestamp \<Rightarrow> bool \<Rightarrow> game_db \<times> int list" where
  "main_loop_step db now nonstop =
     (case scoring_gamecontrol db of
        None \<Rightarrow> (db, [60])
      | Some control \<Rightarrow>
          if now < start control then (db, [60])
          else
            let elapsed = now - start control;
                target = elapsed div int (tick_duration control);
                permitted = (nonstop \<or>
                  now < start control + int (valid_ticks control) * int (tick_duration control))
            in if permitted \<and> current_tick control < target
               then (increase_tick db control, [0])
               else if permitted
               then (db, [(current_tick control + 1) * int (tick_duration control) - elapsed])
               else (db, [0, 60]))"

section \<open>The spec's wording of the count of open work\<close>

text \<open>
  The spec's \<open>countOpen\<close>: the number of open WorkItems (\<^verbatim>\<open>placement_start\<close> null) of the
  service at the current tick. It is compared with \<^verbatim>\<open>get_task_count\<close> below.
\<close>

definition spec_count_open :: "game_db \<Rightarrow> int \<Rightarrow> nat" where
  "spec_count_open db service_id =
     length (filter (\<lambda>flag. placement_start flag = None) (current_tick_flags db service_id))"

section \<open>The forward order of a flag's life\<close>

text \<open>
  \<open>flag_forward flag flag'\<close>: \<open>flag'\<close> is the row \<open>flag\<close> at a later time. It is the same
  flag; a \<^verbatim>\<open>placement_start\<close> that was set has kept its value; a \<^verbatim>\<open>placement_end\<close> that
  was set is still set.
\<close>

definition flag_forward :: "flag_row \<Rightarrow> flag_row \<Rightarrow> bool" where
  "flag_forward flag flag' \<longleftrightarrow>
     flag_id flag' = flag_id flag \<and> flag_service_id flag' = flag_service_id flag \<and>
     protecting_team_id flag' = protecting_team_id flag \<and> flag_tick flag' = flag_tick flag \<and>
     (placement_start flag = None \<or> placement_start flag' = placement_start flag) \<and>
     (placement_end flag = None \<or> placement_end flag' \<noteq> None)"

section \<open>Example databases\<close>

definition example_control :: "int \<Rightarrow> gamecontrol_row" where
  "example_control tk = \<lparr>start = 0, valid_ticks = 10, tick_duration = 180, current_tick = tk\<rparr>"

definition example_flag ::
  "int \<Rightarrow> int \<Rightarrow> int \<Rightarrow> timestamp option \<Rightarrow> timestamp option \<Rightarrow> flag_row" where
  "example_flag fid team tk claimed closed =
     \<lparr>flag_id = fid, flag_service_id = 1, protecting_team_id = team, flag_tick = tk,
      placement_start = claimed, placement_end = closed\<rparr>"

text \<open>One service, the teams 2 and 3 with net numbers 102 and 103, and the given flags.\<close>

definition example_db :: "int \<Rightarrow> flag_row list \<Rightarrow> statuscheck_row list \<Rightarrow> game_db" where
  "example_db tk flags checks =
     \<lparr>scoring_gamecontrol = Some (example_control tk),
      scoring_service = [\<lparr>service_pk = 1, service_name = ''web'', service_slug = ''web''\<rparr>],
      registration_team = [\<lparr>user_id = 2, net_number = 102\<rparr>, \<lparr>user_id = 3, net_number = 103\<rparr>],
      scoring_flag = flags,
      scoring_statuscheck = checks\<rparr>"

text \<open>A database whose only flag of the current tick 0 is claimed already.\<close>

definition db_claimed :: game_db where
  "db_claimed = example_db 0 [example_flag 1 2 0 (Some 5) None] []"

text \<open>A database whose flag of team 2 is claimed at 5 and closed at 7.\<close>

definition db_closed :: game_db where
  "db_closed = example_db 0 [example_flag 1 2 0 (Some 5) (Some 7)] []"

text \<open>
  A database in tick 1: team 2 has an open flag left from tick 0 and, as team 3, an open
  flag of tick 1.
\<close>

definition db_open :: game_db where
  "db_open =
     example_db 1 [example_flag 1 2 0 None None, example_flag 2 2 1 None None,
                   example_flag 3 3 1 None None] []"

text \<open>A state database with one entry.\<close>

definition example_state_db :: state_db where
  "example_state_db =
     [\<lparr>cs_service_id = 1, cs_team_net_no = 102, cs_identifier = ''key'', cs_data = ''old''\<rparr>]"

lemmas example_defs =
  db_open_def db_claimed_def db_closed_def example_db_def example_flag_def example_control_def
  example_state_db_def

section \<open>Properties\<close>

subsection \<open>The random order, the fetched rows and the marks\<close>

text \<open>
  A random order keeps the rows: it is a reordering, whatever the seed, and every
  reordering is the result of some seed.
\<close>

lemma mset_order_by_random: "mset (order_by_random seed xs) = mset xs"
proof (induction seed xs rule: order_by_random.induct)
  case (3 r rs x xs)
  let ?ys = "x # xs"
  let ?i = "r mod length ?ys"
  have i: "?i < length ?ys" by simp
  have "mset (order_by_random (r # rs) ?ys) = add_mset (?ys ! ?i) (mset (take ?i ?ys @ drop (Suc ?i) ?ys))"
    using 3 by (simp add: Let_def del: take_Cons' drop_Suc_Cons nth_Cons_Suc)
  also have "\<dots> = mset (take ?i ?ys @ ?ys ! ?i # drop (Suc ?i) ?ys)" by simp
  also have "\<dots> = mset ?ys" using i by (simp only: id_take_nth_drop[symmetric])
  finally show ?case .
qed simp_all

lemma set_order_by_random: "set (order_by_random seed xs) = set xs"
  using mset_order_by_random [of seed xs] by (metis set_mset_mset)

lemma order_by_random_complete:
  "mset ys = mset xs \<Longrightarrow> \<exists>seed. order_by_random seed xs = ys"
proof (induction ys arbitrary: xs)
  case Nil
  then show ?case by simp
next
  case (Cons y ys)
  from Cons.prems have "y \<in> set xs"
    by (metis list.set_intros(1) set_mset_mset)
  then obtain i where i: "i < length xs" "xs ! i = y"
    by (auto simp: in_set_conv_nth)
  let ?rest = "take i xs @ drop (Suc i) xs"
  from i(1) have split: "xs = take i xs @ xs ! i # drop (Suc i) xs"
    by (rule id_take_nth_drop)
  have "mset xs = add_mset y (mset ?rest)"
    by (subst split) (simp add: i(2))
  with Cons.prems have "mset ys = mset ?rest" by simp
  from Cons.IH [OF this] obtain seed where seed: "order_by_random seed ?rest = ys" by blast
  from i(1) obtain x xs' where xs: "xs = x # xs'" by (cases xs) auto
  have "order_by_random (i # seed) (x # xs') = (x # xs') ! i #
      order_by_random seed (take i (x # xs') @ drop (Suc i) (x # xs'))"
    using i(1) unfolding xs by (simp add: Let_def del: take_Cons' drop_Suc_Cons nth_Cons_Suc)
  then have "order_by_random (i # seed) xs = y # ys"
    using seed i(2) unfolding xs by simp
  then show ?case by blast
qed

lemma set_fetch_tasks: "set (fetch_tasks db service_id task_count seed) \<subseteq> set (open_task_rows db service_id)"
  unfolding fetch_tasks_def using set_take_subset set_order_by_random by fastforce

lemma length_fetch_tasks: "length (fetch_tasks db service_id task_count seed) \<le> nat task_count"
  by (simp add: fetch_tasks_def)

text \<open>
  In the normal permission mode \<^verbatim>\<open>executemany\<close> runs every statement; the marks of a
  claim change \<^verbatim>\<open>placement_start\<close> of the flags with a fetched id and nothing else.
\<close>

lemma executemany_normal: "executemany False stmt ps db = Inr (fold stmt ps db)"
  by (induction ps arbitrary: db) (simp_all add: execute_write_def)

lemma fold_mark_in_progress:
  "fold (mark_in_progress now) ids db =
     db\<lparr>scoring_flag := map (\<lambda>flag. if flag_id flag \<in> set ids
                                  then flag\<lparr>placement_start := Some now\<rparr> else flag) (scoring_flag db)\<rparr>"
proof (induction ids arbitrary: db)
  case Nil
  then show ?case by (simp add: map_idI)
next
  case (Cons a ids)
  have "fold (mark_in_progress now) (a # ids) db
          = fold (mark_in_progress now) ids (mark_in_progress now a db)"
    by simp
  also have "\<dots> = (mark_in_progress now a db)\<lparr>scoring_flag :=
       map (\<lambda>flag. if flag_id flag \<in> set ids then flag\<lparr>placement_start := Some now\<rparr> else flag)
         (scoring_flag (mark_in_progress now a db))\<rparr>"
    by (rule Cons)
  also have "\<dots> = db\<lparr>scoring_flag := map (\<lambda>flag. if flag_id flag \<in> set (a # ids)
                                  then flag\<lparr>placement_start := Some now\<rparr> else flag) (scoring_flag db)\<rparr>"
    by (simp add: mark_in_progress_def comp_def)
  finally show ?case .
qed

lemma scoring_flag_claimed:
  "scoring_flag (fold (mark_in_progress now) ids db) =
     map (\<lambda>flag. if flag_id flag \<in> set ids then flag\<lparr>placement_start := Some now\<rparr> else flag)
       (scoring_flag db)"
  by (simp add: fold_mark_in_progress)

lemma get_new_tasks_normal:
  "get_new_tasks db service_id task_count now seed False =
     (if task_count < 0 then (db, Inl InvalidRowCount)
      else (fold (mark_in_progress now) (map fst (fetch_tasks db service_id task_count seed)) db,
            Inr (map task_dict (fetch_tasks db service_id task_count seed))))"
  by (simp add: get_new_tasks_def transaction_cursor_def execute_write_def executemany_normal Let_def)

lemma get_new_tasks_prohibit:
  "get_new_tasks db service_id task_count now seed True = (db, Inl AuthorizationError)"
  by (simp add: get_new_tasks_def transaction_cursor_def execute_write_def)

text \<open>
  The rows of the join, read back as the flag and the team they come from.
\<close>

lemma open_task_rows_iff:
  "row \<in> set (open_task_rows db service_id) \<longleftrightarrow>
     (\<exists>flag \<in> set (scoring_flag db). \<exists>team \<in> set (registration_team db).
        row = (flag_id flag, protecting_team_id flag, flag_tick flag, net_number team)
        \<and> placement_start flag = None
        \<and> Some (flag_tick flag) = map_option current_tick (scoring_gamecontrol db)
        \<and> flag_service_id flag = service_id
        \<and> protecting_team_id flag = user_id team)"
  (is "?lhs \<longleftrightarrow> ?rhs")
proof (cases "scoring_gamecontrol db")
  case None
  then show ?thesis by (simp add: open_task_rows_def current_tick_flags_def)
next
  case (Some control)
  show ?thesis
  proof
    assume ?lhs
    then obtain flag team where m: "flag \<in> set (scoring_flag db)"
        "team \<in> set (registration_team db)"
      and p: "row = (flag_id flag, protecting_team_id flag, flag_tick flag, net_number team)"
        "placement_start flag = None" "flag_tick flag = current_tick control"
        "flag_service_id flag = service_id" "protecting_team_id flag = user_id team"
      unfolding open_task_rows_def current_tick_flags_def Some by auto
    from m p show ?rhs
      by (intro bexI [of _ flag] bexI [of _ team]) (simp_all add: Some)
  next
    assume ?rhs
    then obtain flag team where m: "flag \<in> set (scoring_flag db)"
        "team \<in> set (registration_team db)"
      and p: "row = (flag_id flag, protecting_team_id flag, flag_tick flag, net_number team)"
        "placement_start flag = None" "flag_tick flag = current_tick control"
        "flag_service_id flag = service_id" "protecting_team_id flag = user_id team"
      unfolding Some by auto
    have "flag \<in> set (current_tick_flags db service_id)"
      using m(1) p(3,4) by (simp add: current_tick_flags_def Some)
    moreover have "row \<in> set [(flag_id flag, protecting_team_id flag, flag_tick flag, net_number team).
        team \<leftarrow> registration_team db,
        placement_start flag = None \<and> protecting_team_id flag = user_id team]"
      using m(2) p(1,2,5) by auto
    ultimately show ?lhs unfolding open_task_rows_def by auto
  qed
qed

text \<open>
  One claim on the example database: with the seed 1 the flag of team 3 comes first.
\<close>

lemma claim_example:
  "get_new_tasks db_open 1 1 9 [1] False =
     (example_db 1 [example_flag 1 2 0 None None, example_flag 2 2 1 None None,
                    example_flag 3 3 1 (Some 9) None] [],
      Inr [\<lparr>task_team_id = 3, task_team_net_no = 103, task_tick = 1\<rparr>])"
  by (simp add: get_new_tasks_normal fetch_tasks_def open_task_rows_def current_tick_flags_def
      mark_in_progress_def task_dict_def example_defs)

subsection \<open>Counting the tasks of a service\<close>

text \<open>
  C3 (as the code has it). For every service id, every database and either permission
  mode, \<^verbatim>\<open>get_task_count\<close> returns the number of all flags of the service whose tick is
  the stored current tick, claimed or not, and leaves the database as it is; it is 0 when
  the competition has no control row.
\<close>

theorem get_task_count_total:
  "get_task_count db service_id prohibit_changes =
     (db, Inr (length (filter (\<lambda>flag. Some (flag_tick flag) =
                                         map_option current_tick (scoring_gamecontrol db)
                                       \<and> flag_service_id flag = service_id) (scoring_flag db))))"
  by (simp add: get_task_count_def transaction_cursor_def current_tick_flags_def
      split: option.splits)

text \<open>
  C3 (as the spec words it) fails: with one flag of the current tick that is claimed
  already, \<^verbatim>\<open>get_task_count\<close> returns 1 where the number of open WorkItems is 0.
\<close>

theorem get_task_count_open_counterexample:
  "get_task_count db_claimed 1 False = (db_claimed, Inr 1) \<and> spec_count_open db_claimed 1 = 0"
  by (simp add: get_task_count_def transaction_cursor_def current_tick_flags_def
      spec_count_open_def example_defs)

subsection \<open>Claiming tasks\<close>

text \<open>
  C2. For every service id and every count, when \<^verbatim>\<open>get_new_tasks\<close> returns, it returns
  at most \<open>task_count\<close> dictionaries, one per fetched row. Every fetched row comes from a
  flag of the database as it was at the selection that was open (\<^verbatim>\<open>placement_start\<close>
  null) and belongs to the service, and from the team that protects it; the dictionary
  carries that team's id and net number and the flag's tick. In the database the same
  transaction leaves, that flag has \<^verbatim>\<open>placement_start = NOW()\<close>, and the flags of the
  table are those of before with exactly the fetched ids marked.
\<close>

theorem get_new_tasks_claims:
  assumes "get_new_tasks db service_id task_count now seed prohibit_changes = (db', Inr tasks)"
  shows "length tasks \<le> nat task_count \<and>
    tasks = map task_dict (fetch_tasks db service_id task_count seed) \<and>
    (\<forall>row \<in> set (fetch_tasks db service_id task_count seed).
       \<exists>flag \<in> set (scoring_flag db). \<exists>team \<in> set (registration_team db).
         row = (flag_id flag, protecting_team_id flag, flag_tick flag, net_number team) \<and>
         placement_start flag = None \<and> flag_service_id flag = service_id \<and>
         user_id team = protecting_team_id flag \<and>
         task_team_id (task_dict row) = protecting_team_id flag \<and>
         task_team_net_no (task_dict row) = net_number team \<and>
         task_tick (task_dict row) = flag_tick flag \<and>
         flag\<lparr>placement_start := Some now\<rparr> \<in> set (scoring_flag db')) \<and>
    scoring_flag db' =
      map (\<lambda>flag. if flag_id flag \<in> fst ` set (fetch_tasks db service_id task_count seed)
                   then flag\<lparr>placement_start := Some now\<rparr> else flag) (scoring_flag db)"
proof -
  let ?rows = "fetch_tasks db service_id task_count seed"
  from assms have mode: "prohibit_changes = False"
    by (cases prohibit_changes) (simp_all add: get_new_tasks_prohibit)
  from assms have db': "db' = fold (mark_in_progress now) (map fst ?rows) db"
    and tasks: "tasks = map task_dict ?rows"
    by (auto simp: mode get_new_tasks_normal split: if_splits)
  have flags': "scoring_flag db' =
      map (\<lambda>flag. if flag_id flag \<in> fst ` set ?rows
                   then flag\<lparr>placement_start := Some now\<rparr> else flag) (scoring_flag db)"
    by (simp add: db' scoring_flag_claimed)
  have len: "length tasks \<le> nat task_count"
    by (simp add: tasks length_fetch_tasks)
  have each: "\<exists>flag \<in> set (scoring_flag db). \<exists>team \<in> set (registration_team db).
         row = (flag_id flag, protecting_team_id flag, flag_tick flag, net_number team) \<and>
         placement_start flag = None \<and> flag_service_id flag = service_id \<and>
         user_id team = protecting_team_id flag \<and>
         task_team_id (task_dict row) = protecting_team_id flag \<and>
         task_team_net_no (task_dict row) = net_number team \<and>
         task_tick (task_dict row) = flag_tick flag \<and>
         flag\<lparr>placement_start := Some now\<rparr> \<in> set (scoring_flag db')"
    if row: "row \<in> set ?rows" for row
  proof -
    from row set_fetch_tasks have "row \<in> set (open_task_rows db service_id)" by blast
    then obtain flag team where ft: "flag \<in> set (scoring_flag db)" "team \<in> set (registration_team db)"
      and r: "row = (flag_id flag, protecting_team_id flag, flag_tick flag, net_number team)"
      and o: "placement_start flag = None" "flag_service_id flag = service_id"
         "protecting_team_id flag = user_id team"
      unfolding open_task_rows_iff by blast
    have "flag_id flag \<in> fst ` set ?rows" using row r by force
    then have "flag\<lparr>placement_start := Some now\<rparr> \<in> set (scoring_flag db')"
      using ft(1) unfolding flags' by force
    with ft r o show ?thesis
      by (intro bexI [of _ flag] bexI [of _ team]) (simp_all add: task_dict_def)
  qed
  from len tasks each flags' show ?thesis by blast
qed

text \<open>
  The property at the example database: one task is asked for and the flag of team 3
  is claimed at 9.
\<close>

theorem get_new_tasks_claims_witness:
  "get_new_tasks db_open 1 1 9 [1] False =
     (example_db 1 [example_flag 1 2 0 None None, example_flag 2 2 1 None None,
                    example_flag 3 3 1 (Some 9) None] [],
      Inr [\<lparr>task_team_id = 3, task_team_net_no = 103, task_tick = 1\<rparr>]) \<and>
   length [\<lparr>task_team_id = 3, task_team_net_no = 103, task_tick = 1\<rparr>] \<le> nat 1 \<and>
   [\<lparr>task_team_id = 3, task_team_net_no = 103, task_tick = 1\<rparr>] =
     map task_dict (fetch_tasks db_open 1 1 [1]) \<and>
   scoring_flag (example_db 1 [example_flag 1 2 0 None None, example_flag 2 2 1 None None,
                               example_flag 3 3 1 (Some 9) None] []) =
     map (\<lambda>flag. if flag_id flag \<in> fst ` set (fetch_tasks db_open 1 1 [1])
                  then flag\<lparr>placement_start := Some 9\<rparr> else flag) (scoring_flag db_open)"
  using get_new_tasks_claims [OF claim_example] claim_example by (intro conjI) blast+

text \<open>
  C10. For every service id, count, database and permission mode, every dictionary
  \<^verbatim>\<open>get_new_tasks\<close> returns has the stored current tick as its tick. A flag of another
  tick is not claimed either: where flag ids are unique (the table's primary key), every
  flag whose tick is not the current tick is the same row after the call, open or not.
\<close>

theorem get_new_tasks_current_tick:
  assumes "get_new_tasks db service_id task_count now seed prohibit_changes = (db', Inr tasks)"
  shows "(\<forall>t \<in> set tasks. Some (task_tick t) = map_option current_tick (scoring_gamecontrol db)) \<and>
    (distinct (map flag_id (scoring_flag db)) \<longrightarrow>
       length (scoring_flag db') = length (scoring_flag db) \<and>
       (\<forall>i < length (scoring_flag db).
          Some (flag_tick (scoring_flag db ! i)) \<noteq> map_option current_tick (scoring_gamecontrol db)
          \<longrightarrow> scoring_flag db' ! i = scoring_flag db ! i))"
proof -
  let ?rows = "fetch_tasks db service_id task_count seed"
  from assms have mode: "prohibit_changes = False"
    by (cases prohibit_changes) (simp_all add: get_new_tasks_prohibit)
  from assms have db': "db' = fold (mark_in_progress now) (map fst ?rows) db"
    and tasks: "tasks = map task_dict ?rows"
    by (auto simp: mode get_new_tasks_normal split: if_splits)
  have flags': "scoring_flag db' =
      map (\<lambda>flag. if flag_id flag \<in> fst ` set ?rows
                   then flag\<lparr>placement_start := Some now\<rparr> else flag) (scoring_flag db)"
    by (simp add: db' scoring_flag_claimed)
  have rows: "\<exists>flag \<in> set (scoring_flag db). fst row = flag_id flag \<and>
      task_tick (task_dict row) = flag_tick flag \<and>
      Some (flag_tick flag) = map_option current_tick (scoring_gamecontrol db)"
    if "row \<in> set ?rows" for row
  proof -
    from that set_fetch_tasks have "row \<in> set (open_task_rows db service_id)" by blast
    then show ?thesis unfolding open_task_rows_iff by (auto simp: task_dict_def)
  qed
  have a: "\<forall>t \<in> set tasks. Some (task_tick t) = map_option current_tick (scoring_gamecontrol db)"
    unfolding tasks using rows by fastforce
  have b: "scoring_flag db' ! i = scoring_flag db ! i"
    if d: "distinct (map flag_id (scoring_flag db))" and i: "i < length (scoring_flag db)"
      and t: "Some (flag_tick (scoring_flag db ! i)) \<noteq> map_option current_tick (scoring_gamecontrol db)"
    for i
  proof -
    have "flag_id (scoring_flag db ! i) \<notin> fst ` set ?rows"
    proof
      assume "flag_id (scoring_flag db ! i) \<in> fst ` set ?rows"
      then obtain row where row: "row \<in> set ?rows" "fst row = flag_id (scoring_flag db ! i)" by force
      from rows [OF row(1)] obtain flag where f: "flag \<in> set (scoring_flag db)"
        "fst row = flag_id flag" "Some (flag_tick flag) = map_option current_tick (scoring_gamecontrol db)"
        by blast
      from f(1) obtain j where j: "j < length (scoring_flag db)" "scoring_flag db ! j = flag"
        by (auto simp: in_set_conv_nth)
      have "map flag_id (scoring_flag db) ! i = map flag_id (scoring_flag db) ! j"
        using i j row(2) f(2) by simp
      moreover have "i < length (map flag_id (scoring_flag db))"
        "j < length (map flag_id (scoring_flag db))" using i j by simp_all
      ultimately have "i = j" using d nth_eq_iff_index_eq by blast
      with j f(3) t show False by simp
    qed
    then show ?thesis using i by (simp add: flags')
  qed
  have c: "length (scoring_flag db') = length (scoring_flag db)" by (simp add: flags')
  from a b c show ?thesis by blast
qed

text \<open>
  The property at the example database, whose first flag is an open flag of tick 0
  while the current tick is 1: the claim returns a task of tick 1 and leaves the first
  flag as it was.
\<close>

theorem get_new_tasks_current_tick_witness:
  "get_new_tasks db_open 1 1 9 [1] False =
     (example_db 1 [example_flag 1 2 0 None None, example_flag 2 2 1 None None,
                    example_flag 3 3 1 (Some 9) None] [],
      Inr [\<lparr>task_team_id = 3, task_team_net_no = 103, task_tick = 1\<rparr>]) \<and>
   Some (task_tick \<lparr>task_team_id = 3, task_team_net_no = 103, task_tick = 1\<rparr>) =
     map_option current_tick (scoring_gamecontrol db_open) \<and>
   distinct (map flag_id (scoring_flag db_open)) \<and>
   Some (flag_tick (scoring_flag db_open ! 0)) \<noteq>
     map_option current_tick (scoring_gamecontrol db_open) \<and>
   scoring_flag (example_db 1 [example_flag 1 2 0 None None, example_flag 2 2 1 None None,
                               example_flag 3 3 1 (Some 9) None] []) ! 0 = scoring_flag db_open ! 0"
proof -
  have d: "distinct (map flag_id (scoring_flag db_open))"
    and old: "Some (flag_tick (scoring_flag db_open ! 0)) \<noteq>
       map_option current_tick (scoring_gamecontrol db_open)"
    and i: "0 < length (scoring_flag db_open)"
    by (simp_all add: example_defs)
  note t = get_new_tasks_current_tick [OF claim_example]
  from t have a: "\<forall>t \<in> set [\<lparr>task_team_id = 3, task_team_net_no = 103, task_tick = 1\<rparr>].
      Some (task_tick t) = map_option current_tick (scoring_gamecontrol db_open)"
    by (rule conjunct1)
  from t d i old have b: "scoring_flag (example_db 1 [example_flag 1 2 0 None None,
      example_flag 2 2 1 None None, example_flag 3 3 1 (Some 9) None] []) ! 0
        = scoring_flag db_open ! 0"
    by blast
  from a have "Some (task_tick \<lparr>task_team_id = 3, task_team_net_no = 103, task_tick = 1\<rparr>) =
     map_option current_tick (scoring_gamecontrol db_open)"
    by (simp del: task.simps)
  with claim_example d old b show ?thesis by (intro conjI)
qed

subsection \<open>Committing a result\<close>

lemma fetchone_filter_None:
  "fetchone (map f (filter P xs)) = None \<longleftrightarrow> (\<forall>x \<in> set xs. \<not> P x)"
  by (induction xs) auto

lemma commit_result_unresolved:
  assumes "team_net_no \<notin> net_number ` set (registration_team db)"
  shows "fetchone (map user_id (filter (\<lambda>team. net_number team = team_net_no)
           (registration_team db))) = None"
  using assms by (auto simp: fetchone_filter_None)

text \<open>
  C5. For every call of \<^verbatim>\<open>commit_result\<close> whose net number belongs to no team: with a
  fallback team id (\<^verbatim>\<open>fake_team_id\<close>), in the normal permission mode, the call returns
  without an error, exactly one row is appended to \<^verbatim>\<open>scoring_statuscheck\<close>, under the
  fallback id, and the flags of (service, fallback id, tick) get \<^verbatim>\<open>placement_end = NOW()\<close>,
  all else unchanged; with no fallback the call returns without an error and the
  database is unchanged, in either permission mode.
\<close>

theorem commit_result_unknown_team:
  assumes "team_net_no \<notin> net_number ` set (registration_team db)"
  shows "commit_result db service_id team_net_no tk result now False (Some fake) =
      (db\<lparr>scoring_statuscheck := scoring_statuscheck db @
             [\<lparr>sc_service_id = service_id, sc_team_id = fake, sc_tick = tk, sc_status = result,
               sc_timestamp = now\<rparr>],
          scoring_flag :=
             map (\<lambda>flag. if flag_service_id flag = service_id \<and> protecting_team_id flag = fake
                             \<and> flag_tick flag = tk
                          then flag\<lparr>placement_end := Some now\<rparr> else flag)
               (scoring_flag db)\<rparr>, Inr ()) \<and>
    commit_result db service_id team_net_no tk result now prohibit_changes None = (db, Inr ())"
  by (simp add: commit_result_def transaction_cursor_def execute_write_def
      commit_result_unresolved [OF assms] insert_statuscheck_def set_placement_end_def)

text \<open>
  The property at the example database, where no team has the net number 999: with the
  fallback id 3 one status check of team 3 is recorded and its flag of tick 1 closed;
  with no fallback nothing changes.
\<close>

theorem commit_result_unknown_team_witness:
  "999 \<notin> net_number ` set (registration_team db_open) \<and>
   commit_result db_open 1 999 1 0 9 False (Some 3) =
     (example_db 1 [example_flag 1 2 0 None None, example_flag 2 2 1 None None,
                    example_flag 3 3 1 None (Some 9)]
        [\<lparr>sc_service_id = 1, sc_team_id = 3, sc_tick = 1, sc_status = 0, sc_timestamp = 9\<rparr>],
      Inr ()) \<and>
   commit_result db_open 1 999 1 0 9 True None = (db_open, Inr ())"
proof -
  have u: "999 \<notin> net_number ` set (registration_team db_open)"
    by (simp add: example_defs)
  from commit_result_unknown_team [OF u, of 1 1 0 9 3 True] u show ?thesis
    by (simp add: example_defs)
qed

subsection \<open>The read-restricted permission mode\<close>

text \<open>
  C9. With \<^verbatim>\<open>prohibit_changes\<close>, every mutating statement fails with an authorization
  error. So \<^verbatim>\<open>get_new_tasks\<close> and \<^verbatim>\<open>store_state\<close> fail with an authorization error
  and leave their database unchanged, and so does \<^verbatim>\<open>commit_result\<close> whenever it attempts
  its mutation, the append of the status check and the close of the flags: that is when
  the net number resolves to a team or a fallback id is given. With an unknown net number
  and no fallback \<^verbatim>\<open>commit_result\<close> attempts no mutation in any mode: it returns before
  its first mutating statement, and the database is unchanged.
\<close>

theorem prohibit_changes_authorization:
  "execute_write True stmt d = Inl AuthorizationError \<and>
   get_new_tasks db service_id task_count now seed True = (db, Inl AuthorizationError) \<and>
   store_state sdb service_id team_net_no identifier data True = (sdb, Inl AuthorizationError) \<and>
   commit_result db service_id team_net_no tk result now True fake_team_id =
     (db, if team_net_no \<notin> net_number ` set (registration_team db) \<and> fake_team_id = None
          then Inr () else Inl AuthorizationError)"
proof -
  have c: "commit_result db service_id team_net_no tk result now True fake_team_id =
     (db, if team_net_no \<notin> net_number ` set (registration_team db) \<and> fake_team_id = None
          then Inr () else Inl AuthorizationError)"
  proof (cases "team_net_no \<in> net_number ` set (registration_team db)")
    case True
    then have "fetchone (map user_id (filter (\<lambda>team. net_number team = team_net_no)
           (registration_team db))) \<noteq> None"
      by (auto simp: fetchone_filter_None)
    then show ?thesis using True
      by (auto simp: commit_result_def transaction_cursor_def execute_write_def)
  next
    case False
    then show ?thesis
      by (cases fake_team_id)
        (simp_all add: commit_result_def transaction_cursor_def execute_write_def
          commit_result_unresolved)
  qed
  show ?thesis
    by (simp add: get_new_tasks_prohibit c execute_write_def store_state_def
        transaction_cursor_def)
qed

text \<open>
  The property at the example databases: a claim, a store and a commit for the team of
  net number 103 all fail with an authorization error and change nothing.
\<close>

theorem prohibit_changes_authorization_witness:
  "get_new_tasks db_open 1 1 9 [1] True = (db_open, Inl AuthorizationError) \<and>
   store_state example_state_db 1 102 ''key'' ''new'' True =
     (example_state_db, Inl AuthorizationError) \<and>
   commit_result db_open 1 103 1 0 9 True None = (db_open, Inl AuthorizationError)"
proof -
  have known: "103 \<in> net_number ` set (registration_team db_open)"
    by (simp add: example_defs)
  note t = prohibit_changes_authorization
      [of _ _ db_open 1 1 9 "[1]" example_state_db 102 "''key''" "''new''"]
  note u = prohibit_changes_authorization [of _ _ db_open 1 _ 9 _ _ 103 _ _ 1 0 None]
  note a = t [THEN conjunct2, THEN conjunct1]
  note b = t [THEN conjunct2, THEN conjunct2, THEN conjunct1]
  from u [THEN conjunct2, THEN conjunct2, THEN conjunct2] known
  have "commit_result db_open 1 103 1 0 9 True None = (db_open, Inl AuthorizationError)"
    by simp
  with a b show ?thesis by (intro conjI)
qed

subsection \<open>The state database\<close>

lemma store_state_normal:
  "store_state sdb service_id team_net_no identifier data False =
     (upsert_state service_id team_net_no identifier data sdb, Inr ())"
  by (simp add: store_state_def transaction_cursor_def execute_write_def)

lemma load_state_eq:
  "load_state sdb service_id team_net_no identifier prohibit_changes =
     (sdb, Inr (fetchone (map cs_data
        (filter (\<lambda>row. cs_key row = (service_id, team_net_no, identifier)) sdb))))"
  by (simp add: load_state_def transaction_cursor_def cs_key_def split: option.splits)

lemma fetchone_present:
  "k \<in> set (map cs_key sdb) \<Longrightarrow>
   fetchone (map cs_data (filter (\<lambda>row. cs_key row = k)
     (map (\<lambda>row. if cs_key row = k then row\<lparr>cs_data := data\<rparr> else row) sdb))) = Some data"
  by (induction sdb) (auto simp: cs_key_def)

lemma fetchone_absent:
  "k \<notin> set (map cs_key sdb) \<Longrightarrow>
   fetchone (map cs_data (filter (\<lambda>row. cs_key row = k) (sdb @ [new]))) =
     (if cs_key new = k then Some (cs_data new) else None)"
  by (induction sdb) auto

lemma load_after_upsert:
  "fetchone (map cs_data (filter (\<lambda>row. cs_key row = (s, t, i)) (upsert_state s t i data sdb)))
     = Some data"
proof (cases "(s, t, i) \<in> set (map cs_key sdb)")
  case True
  then show ?thesis unfolding upsert_state_def by (simp only: if_True fetchone_present)
next
  case False
  let ?new = "\<lparr>cs_service_id = s, cs_team_net_no = t, cs_identifier = i, cs_data = data\<rparr>"
  have key: "cs_key ?new = (s, t, i)" by (simp add: cs_key_def)
  from False have "upsert_state s t i data sdb = sdb @ [?new]"
    by (simp only: upsert_state_def if_False)
  then show ?thesis using fetchone_absent [OF False, of ?new] key by simp
qed

lemma keys_upsert_state:
  "map cs_key (upsert_state s t i data sdb) =
     (if (s, t, i) \<in> set (map cs_key sdb) then map cs_key sdb else map cs_key sdb @ [(s, t, i)])"
  by (auto simp: upsert_state_def cs_key_def)

lemma distinct_upsert_state:
  "distinct (map cs_key sdb) \<Longrightarrow> distinct (map cs_key (upsert_state s t i data sdb))"
  by (simp add: keys_upsert_state)

lemma keys_run_stores:
  "set (map cs_key (run_stores sdb stores)) =
     set (map cs_key sdb) \<union> (\<lambda>(s, t, i, data). (s, t, i)) ` set stores"
proof (induction stores arbitrary: sdb)
  case Nil
  then show ?case by simp
next
  case (Cons x xs)
  obtain s t i data where x: "x = (s, t, i, data)" by (cases x)
  show ?case
    by (simp add: x Cons store_state_normal keys_upsert_state del: set_map) auto
qed

lemma distinct_run_stores:
  "distinct (map cs_key sdb) \<Longrightarrow> distinct (map cs_key (run_stores sdb stores))"
proof (induction stores arbitrary: sdb)
  case Nil
  then show ?case by simp
next
  case (Cons x xs)
  obtain s t i data where x: "x = (s, t, i, data)" by (cases x)
  show ?case using Cons.prems
    by (simp add: x store_state_normal Cons.IH distinct_upsert_state)
qed

text \<open>
  C6. For every key (service id, team net number, identifier), every blob and every
  state database: \<^verbatim>\<open>store_state\<close> returns without an error, and \<^verbatim>\<open>load_state\<close> of the
  same key on the database it leaves returns exactly the blob, whether or not the key had
  an entry. A run of stores keeps the keys of the table unique (at most one live value per
  key). \<^verbatim>\<open>load_state\<close> of a key that is neither in the database at the start nor stored
  during the run returns \<open>None\<close>, not an error, and changes nothing.
\<close>

theorem state_round_trip:
  "store_state sdb s t i data False = (upsert_state s t i data sdb, Inr ()) \<and>
   load_state (upsert_state s t i data sdb) s t i prohibit_changes =
     (upsert_state s t i data sdb, Inr (Some data)) \<and>
   (distinct (map cs_key sdb) \<longrightarrow> distinct (map cs_key (run_stores sdb stores))) \<and>
   ((s, t, i) \<notin> set (map cs_key sdb) \<and> (s, t, i) \<notin> (\<lambda>(s, t, i, data). (s, t, i)) ` set stores
      \<longrightarrow> load_state (run_stores sdb stores) s t i prohibit_changes =
            (run_stores sdb stores, Inr None))"
proof -
  have "load_state (run_stores sdb stores) s t i prohibit_changes = (run_stores sdb stores, Inr None)"
    if "(s, t, i) \<notin> set (map cs_key sdb)"
      "(s, t, i) \<notin> (\<lambda>(s, t, i, data). (s, t, i)) ` set stores"
  proof -
    from that have "(s, t, i) \<notin> set (map cs_key (run_stores sdb stores))"
      unfolding keys_run_stores by blast
    then have "\<forall>row \<in> set (run_stores sdb stores). cs_key row \<noteq> (s, t, i)"
      unfolding set_map by (metis imageI)
    then have "filter (\<lambda>row. cs_key row = (s, t, i)) (run_stores sdb stores) = []"
      by (simp add: filter_empty_conv)
    then show ?thesis by (simp add: load_state_eq)
  qed
  then show ?thesis
    by (simp add: store_state_normal load_state_eq load_after_upsert distinct_run_stores)
qed

text \<open>
  The property at the example state database: overwriting the entry of
  \<open>(1, 102, ''key'')\<close> and reading it back, and reading the key \<open>(1, 102, ''other'')\<close> that
  was never stored.
\<close>

theorem state_round_trip_witness:
  "distinct (map cs_key example_state_db) \<and>
   distinct (map cs_key (run_stores example_state_db [(1, 103, ''key'', ''a''), (1, 102, ''key'', ''new'')])) \<and>
   (1, 102, ''other'') \<notin> set (map cs_key example_state_db) \<and>
   load_state (run_stores example_state_db [(1, 103, ''key'', ''a''), (1, 102, ''key'', ''new'')])
      1 102 ''other'' False =
     (run_stores example_state_db [(1, 103, ''key'', ''a''), (1, 102, ''key'', ''new'')], Inr None) \<and>
   load_state (upsert_state 1 102 ''key'' ''new'' example_state_db) 1 102 ''key'' False =
     (upsert_state 1 102 ''key'' ''new'' example_state_db, Inr (Some ''new''))"
proof -
  have d: "distinct (map cs_key example_state_db)"
    and k: "(1, 102, ''other'') \<notin> set (map cs_key example_state_db)"
    by (simp_all add: example_defs cs_key_def)
  have s: "(1, 102, ''other'') \<notin> (\<lambda>(s, t, i, data). (s, t, i)) `
            set [(1, 103, ''key'', ''a''), (1::int, 102::int, ''key'', ''new'')]"
    by simp
  from state_round_trip [of example_state_db 1 102 "''other''" "''new''" False
      "[(1, 103, ''key'', ''a''), (1, 102, ''key'', ''new'')]"] 
    state_round_trip [of example_state_db 1 102 "''key''" "''new''" False "[]"] d k s
  show ?thesis by blast
qed

subsection \<open>The life of a flag\<close>

lemma flag_forward_refl: "flag_forward flag flag"
  by (cases "placement_start flag"; cases "placement_end flag") (simp_all add: flag_forward_def)

lemma flag_forward_trans:
  "flag_forward a b \<Longrightarrow> flag_forward b c \<Longrightarrow> flag_forward a c"
  by (auto simp: flag_forward_def)

lemma list_all2_flag_forward_trans:
  "list_all2 flag_forward xs ys \<Longrightarrow> list_all2 flag_forward ys zs \<Longrightarrow> list_all2 flag_forward xs zs"
  by (rule list_all2_trans [of flag_forward flag_forward flag_forward xs ys zs])
    (auto intro: flag_forward_trans)

lemma list_all2_flag_forward_ids:
  "list_all2 flag_forward xs ys \<Longrightarrow> map flag_id ys = map flag_id xs"
  by (induction rule: list_all2_induct) (simp_all add: flag_forward_def)

lemma commit_result_flags:
  "scoring_flag (fst (commit_result db service_id team_net_no tk result now prohibit_changes fake_team_id))
     = scoring_flag db \<or>
   (\<exists>team. scoring_flag (fst (commit_result db service_id team_net_no tk result now prohibit_changes fake_team_id))
     = map (\<lambda>flag. if flag_service_id flag = service_id \<and> protecting_team_id flag = team
                             \<and> flag_tick flag = tk
                          then flag\<lparr>placement_end := Some now\<rparr> else flag) (scoring_flag db))"
  by (cases prohibit_changes)
    (auto simp: commit_result_def transaction_cursor_def execute_write_def Let_def
      insert_statuscheck_def set_placement_end_def split: option.splits)

lemma commit_result_forward:
  "list_all2 flag_forward (scoring_flag db)
     (scoring_flag (fst (commit_result db service_id team_net_no tk result now prohibit_changes fake_team_id)))"
proof -
  have "list_all2 flag_forward xs
     (map (\<lambda>flag. if P flag then flag\<lparr>placement_end := Some now\<rparr> else flag) xs)" for xs P
    by (induction xs) (simp_all add: flag_forward_refl, simp add: flag_forward_def)
  moreover have "list_all2 flag_forward xs xs" for xs
    by (simp add: list_all2_same flag_forward_refl)
  ultimately show ?thesis
    using commit_result_flags [of db service_id team_net_no tk result now prohibit_changes fake_team_id]
    by auto
qed

lemma fetched_flags_open:
  assumes d: "distinct (map flag_id (scoring_flag db))"
    and f: "flag \<in> set (scoring_flag db)"
    and i: "flag_id flag \<in> fst ` set (fetch_tasks db service_id task_count seed)"
  shows "placement_start flag = None"
proof -
  from i obtain row where row: "row \<in> set (fetch_tasks db service_id task_count seed)"
    "fst row = flag_id flag" by force
  from row(1) set_fetch_tasks have "row \<in> set (open_task_rows db service_id)" by blast
  then obtain flag' where f': "flag' \<in> set (scoring_flag db)" "fst row = flag_id flag'"
    "placement_start flag' = None"
    unfolding open_task_rows_iff by auto
  from d have "inj_on flag_id (set (scoring_flag db))" by (simp add: distinct_map)
  with f f' row(2) have "flag' = flag" by (auto dest: inj_onD)
  with f'(3) show ?thesis by simp
qed

lemma get_new_tasks_forward:
  assumes d: "distinct (map flag_id (scoring_flag db))"
  shows "list_all2 flag_forward (scoring_flag db)
     (scoring_flag (fst (get_new_tasks db service_id task_count now seed prohibit_changes)))"
proof (cases "prohibit_changes \<or> task_count < 0")
  case True
  then show ?thesis
    by (cases prohibit_changes)
      (simp_all add: get_new_tasks_prohibit get_new_tasks_normal list_all2_same flag_forward_refl)
next
  case False
  let ?ids = "fst ` set (fetch_tasks db service_id task_count seed)"
  from False have "scoring_flag (fst (get_new_tasks db service_id task_count now seed prohibit_changes))
    = map (\<lambda>flag. if flag_id flag \<in> ?ids then flag\<lparr>placement_start := Some now\<rparr> else flag)
        (scoring_flag db)"
    by (simp add: get_new_tasks_normal scoring_flag_claimed)
  moreover have "list_all2 flag_forward (scoring_flag db)
     (map (\<lambda>flag. if flag_id flag \<in> ?ids then flag\<lparr>placement_start := Some now\<rparr> else flag)
        (scoring_flag db))"
    unfolding list_all2_map2
  proof (rule list_all2_all_nthI [OF refl])
    fix n assume "n < length (scoring_flag db)"
    then have mem: "scoring_flag db ! n \<in> set (scoring_flag db)" by simp
    show "flag_forward (scoring_flag db ! n)
      (if flag_id (scoring_flag db ! n) \<in> ?ids
       then (scoring_flag db ! n)\<lparr>placement_start := Some now\<rparr> else scoring_flag db ! n)"
    proof (cases "flag_id (scoring_flag db ! n) \<in> ?ids")
      case True
      with fetched_flags_open [OF d mem] have "placement_start (scoring_flag db ! n) = None"
        by simp
      with True show ?thesis
        by (cases "placement_end (scoring_flag db ! n)") (simp_all add: flag_forward_def)
    next
      case False
      then show ?thesis by (simp add: flag_forward_refl)
    qed
  qed
  ultimately show ?thesis by simp
qed

lemma apply_operation_forward:
  "distinct (map flag_id (scoring_flag db)) \<Longrightarrow>
   list_all2 flag_forward (scoring_flag db) (scoring_flag (apply_operation db x))"
  by (cases x) (simp_all add: get_new_tasks_forward commit_result_forward)

text \<open>
  What a commit in the normal permission mode does to the flags once its team is known,
  by the net number or else by the fallback id.
\<close>

lemma commit_result_closes:
  assumes "fetchone (map user_id (filter (\<lambda>team. net_number team = team_net_no)
              (registration_team db))) = Some team
           \<or> (team_net_no \<notin> net_number ` set (registration_team db) \<and> fake_team_id = Some team)"
  shows "scoring_flag (fst (commit_result db service_id team_net_no tk result now False fake_team_id)) =
           map (\<lambda>flag. if flag_service_id flag = service_id \<and> protecting_team_id flag = team
                           \<and> flag_tick flag = tk
                        then flag\<lparr>placement_end := Some now\<rparr> else flag) (scoring_flag db)"
  using assms
proof
  assume "fetchone (map user_id (filter (\<lambda>team. net_number team = team_net_no)
              (registration_team db))) = Some team"
  then show ?thesis
    by (simp add: commit_result_def transaction_cursor_def execute_write_def
        insert_statuscheck_def set_placement_end_def)
next
  assume a: "team_net_no \<notin> net_number ` set (registration_team db) \<and> fake_team_id = Some team"
  then have "fetchone (map user_id (filter (\<lambda>team. net_number team = team_net_no)
              (registration_team db))) = None"
    by (simp add: commit_result_unresolved)
  with a show ?thesis
    by (simp add: commit_result_def transaction_cursor_def execute_write_def
        insert_statuscheck_def set_placement_end_def)
qed

text \<open>
  C4 (as the code has it). Where flag ids are unique (the table's primary key), after
  every sequence of claims and commits, in either permission mode, the table holds the
  same flags in the same places (none is deleted), a \<^verbatim>\<open>placement_start\<close> that was set
  has its old value, and a \<^verbatim>\<open>placement_end\<close> that was set is still set. But
  \<^verbatim>\<open>placement_end\<close> is not written once only: a \<^verbatim>\<open>commit_result\<close> in the normal
  permission mode whose net number resolves to a team, or has a fallback id when it does
  not resolve, sets \<^verbatim>\<open>placement_end = NOW()\<close> on every flag of that service, team and
  tick, closed before or not, and leaves every other flag as it was.
\<close>

theorem flags_only_forward:
  "(distinct (map flag_id (scoring_flag db)) \<longrightarrow>
      list_all2 flag_forward (scoring_flag db) (scoring_flag (run_operations db ops))) \<and>
   (fetchone (map user_id (filter (\<lambda>team. net_number team = team_net_no)
              (registration_team db))) = Some team
     \<or> (team_net_no \<notin> net_number ` set (registration_team db) \<and> fake_team_id = Some team) \<longrightarrow>
      scoring_flag (fst (commit_result db service_id team_net_no tk result now False fake_team_id)) =
        map (\<lambda>flag. if flag_service_id flag = service_id \<and> protecting_team_id flag = team
                        \<and> flag_tick flag = tk
                     then flag\<lparr>placement_end := Some now\<rparr> else flag) (scoring_flag db))"
proof -
  have "list_all2 flag_forward (scoring_flag db) (scoring_flag (run_operations db ops))"
    if "distinct (map flag_id (scoring_flag db))"
    using that
  proof (induction ops arbitrary: db)
    case Nil
    then show ?case by (simp add: list_all2_same flag_forward_refl)
  next
    case (Cons x xs)
    have step: "list_all2 flag_forward (scoring_flag db) (scoring_flag (apply_operation db x))"
      using Cons.prems by (rule apply_operation_forward)
    then have "distinct (map flag_id (scoring_flag (apply_operation db x)))"
      using Cons.prems by (simp add: list_all2_flag_forward_ids)
    then have "list_all2 flag_forward (scoring_flag (apply_operation db x))
       (scoring_flag (run_operations (apply_operation db x) xs))"
      by (rule Cons.IH)
    with step show ?case by (simp add: list_all2_flag_forward_trans)
  qed
  then show ?thesis using commit_result_closes by blast
qed

text \<open>
  The property at the example databases: a claim of the flag of team 3 at 9 and the
  commit of its result at 12; and a commit at 9 for team 2, whose flag was closed at 7.
\<close>

theorem flags_only_forward_witness:
  "distinct (map flag_id (scoring_flag db_open)) \<and>
   list_all2 flag_forward (scoring_flag db_open)
     (scoring_flag (run_operations db_open
        [Claim 1 1 9 [1] False, Commit 1 103 1 0 12 False None])) \<and>
   scoring_flag (run_operations db_open [Claim 1 1 9 [1] False, Commit 1 103 1 0 12 False None]) =
     [example_flag 1 2 0 None None, example_flag 2 2 1 None None,
      example_flag 3 3 1 (Some 9) (Some 12)] \<and>
   fetchone (map user_id (filter (\<lambda>team. net_number team = 102)
              (registration_team db_closed))) = Some 2 \<and>
   scoring_flag (fst (commit_result db_closed 1 102 0 0 9 False None)) =
     [example_flag 1 2 0 (Some 5) (Some 9)]"
proof -
  have d: "distinct (map flag_id (scoring_flag db_open))"
    by (simp add: example_defs)
  have r: "scoring_flag (run_operations db_open
               [Claim 1 1 9 [1] False, Commit 1 103 1 0 12 False None]) =
     [example_flag 1 2 0 None None, example_flag 2 2 1 None None,
      example_flag 3 3 1 (Some 9) (Some 12)]"
    by (simp only: run_operations.simps apply_operation.simps claim_example fst_conv)
      (simp add: commit_result_def transaction_cursor_def execute_write_def
        insert_statuscheck_def set_placement_end_def example_defs)
  have t: "fetchone (map user_id (filter (\<lambda>team. net_number team = 102)
              (registration_team db_closed))) = Some 2"
    by (simp add: example_defs)
  from flags_only_forward [of db_open "[Claim 1 1 9 [1] False, Commit 1 103 1 0 12 False None]"] d
  have f: "list_all2 flag_forward (scoring_flag db_open)
     (scoring_flag (run_operations db_open
        [Claim 1 1 9 [1] False, Commit 1 103 1 0 12 False None]))"
    by blast
  from flags_only_forward [of db_closed "[]" 102 2 None 1 0 0 9] t
  have "scoring_flag (fst (commit_result db_closed 1 102 0 0 9 False None)) =
      map (\<lambda>flag. if flag_service_id flag = 1 \<and> protecting_team_id flag = 2 \<and> flag_tick flag = 0
                   then flag\<lparr>placement_end := Some 9\<rparr> else flag) (scoring_flag db_closed)"
    by blast
  then have c: "scoring_flag (fst (commit_result db_closed 1 102 0 0 9 False None)) =
     [example_flag 1 2 0 (Some 5) (Some 9)]"
    by (simp add: example_defs)
  from d f r t c show ?thesis by (intro conjI)
qed

text \<open>
  C4 (as stated) fails for \<^verbatim>\<open>placement_end\<close>: a flag closed at 7 is closed at 9 after
  another \<^verbatim>\<open>commit_result\<close> for the same service, team and tick at 9.
\<close>

theorem placement_end_overwritten_counterexample:
  "placement_end (scoring_flag db_closed ! 0) = Some 7 \<and>
   placement_end (scoring_flag (run_operations db_closed [Commit 1 102 0 0 9 False None]) ! 0) = Some 9"
  by (simp add: commit_result_def transaction_cursor_def execute_write_def
      insert_statuscheck_def set_placement_end_def example_defs)

subsection \<open>The tick scheduler\<close>

lemma length_new_flags:
  "length (new_flags db new_tick) = length (scoring_service db) * length (registration_team db)"
  by (simp add: new_flags_def length_product)

lemma map_enumerate_snd: "map (\<lambda>x. g (snd x)) (enumerate n xs) = map g xs"
  by (induction xs arbitrary: n) simp_all

lemma map_product: "map (\<lambda>p. (f (fst p), g (snd p))) (List.product xs ys) = List.product (map f xs) (map g ys)"
  by (induction xs) (simp_all add: comp_def)

lemma new_flags_pairs:
  "map (\<lambda>flag. (flag_service_id flag, protecting_team_id flag)) (new_flags db new_tick) =
     List.product (map service_pk (scoring_service db)) (map user_id (registration_team db))"
proof -
  have "map (\<lambda>flag. (flag_service_id flag, protecting_team_id flag)) (new_flags db new_tick) =
      map (\<lambda>x. (service_pk (fst (snd x)), user_id (snd (snd x))))
        (enumerate 0 (List.product (scoring_service db) (registration_team db)))"
    by (simp add: new_flags_def comp_def case_prod_beta)
  also have "\<dots> = map (\<lambda>p. (service_pk (fst p), user_id (snd p)))
        (List.product (scoring_service db) (registration_team db))"
    by (rule map_enumerate_snd)
  also have "\<dots> = List.product (map service_pk (scoring_service db))
                      (map user_id (registration_team db))"
    by (rule map_product)
  finally show ?thesis .
qed

lemma new_flags_open:
  "flag \<in> set (new_flags db new_tick) \<Longrightarrow>
     flag_tick flag = new_tick \<and> placement_start flag = None \<and> placement_end flag = None"
  by (auto simp: new_flags_def)

text \<open>
  C1. For every database with a control row, every instant \<open>now\<close> at or after the
  start at which advancing is permitted (\<open>nonstop\<close>, or the window is still open), with a
  positive tick duration and the current tick below the tick the clock implies, one step
  yields the single idle duration 0, sets the current tick to its old value plus one, and
  appends to the flags exactly one open flag for each pair of a service and a team, all
  with the new tick: as many as services times teams.
\<close>

theorem main_loop_step_advances:
  assumes "scoring_gamecontrol db = Some control"
    and "start control \<le> now"
    and "nonstop \<or> now < start control + int (valid_ticks control) * int (tick_duration control)"
    and "0 < tick_duration control"
    and "current_tick control < (now - start control) div int (tick_duration control)"
  shows "\<exists>db' new.
      main_loop_step db now nonstop = (db', [0]) \<and>
      scoring_gamecontrol db' = Some (control\<lparr>current_tick := current_tick control + 1\<rparr>) \<and>
      scoring_flag db' = scoring_flag db @ new \<and>
      length new = length (scoring_service db) * length (registration_team db) \<and>
      (\<forall>flag \<in> set new. flag_tick flag = current_tick control + 1 \<and>
                          placement_start flag = None \<and> placement_end flag = None) \<and>
      map (\<lambda>flag. (flag_service_id flag, protecting_team_id flag)) new =
        List.product (map service_pk (scoring_service db)) (map user_id (registration_team db))"
proof -
  let ?new = "new_flags db (current_tick control + 1)"
  have step: "main_loop_step db now nonstop = (increase_tick db control, [0])"
    using assms by (auto simp: main_loop_step_def Let_def)
  have "scoring_gamecontrol (increase_tick db control)
          = Some (control\<lparr>current_tick := current_tick control + 1\<rparr>)"
    and "scoring_flag (increase_tick db control) = scoring_flag db @ ?new"
    by (simp_all add: increase_tick_def Let_def)
  moreover have "\<forall>flag \<in> set ?new. flag_tick flag = current_tick control + 1 \<and>
                          placement_start flag = None \<and> placement_end flag = None"
    using new_flags_open by blast
  ultimately show ?thesis
    using step length_new_flags [of db "current_tick control + 1"]
      new_flags_pairs [of db "current_tick control + 1"]
    by blast
qed

text \<open>
  The property at an example of the overdue test: 1140 seconds after the start with
  ticks of 180 seconds and the current tick 5, the step moves to tick 6 and creates the
  flags of the one service for the two teams.
\<close>

theorem main_loop_step_advances_witness:
  "scoring_gamecontrol (example_db 5 [] []) = Some (example_control 5) \<and>
   start (example_control 5) \<le> 1140 \<and>
   1140 < start (example_control 5) +
            int (valid_ticks (example_control 5)) * int (tick_duration (example_control 5)) \<and>
   0 < tick_duration (example_control 5) \<and>
   current_tick (example_control 5) <
     (1140 - start (example_control 5)) div int (tick_duration (example_control 5)) \<and>
   (\<exists>db' new.
      main_loop_step (example_db 5 [] []) 1140 False = (db', [0]) \<and>
      scoring_gamecontrol db' = Some (example_control 6) \<and>
      scoring_flag db' = new \<and> length new = 2 \<and>
      map (\<lambda>flag. (flag_service_id flag, protecting_team_id flag)) new = [(1, 2), (1, 3)])"
proof -
  have h1: "scoring_gamecontrol (example_db 5 [] []) = Some (example_control 5)"
    and h2: "start (example_control 5) \<le> 1140"
    and h3: "False \<or> 1140 < start (example_control 5) +
            int (valid_ticks (example_control 5)) * int (tick_duration (example_control 5))"
    and h4: "0 < tick_duration (example_control 5)"
    and h5: "current_tick (example_control 5) <
     (1140 - start (example_control 5)) div int (tick_duration (example_control 5))"
    by (simp_all add: example_defs)
  from main_loop_step_advances [OF h1 h2 h3 h4 h5]
  obtain db' new where r: "main_loop_step (example_db 5 [] []) 1140 False = (db', [0])"
    "scoring_gamecontrol db' = Some ((example_control 5)\<lparr>current_tick := current_tick (example_control 5) + 1\<rparr>)"
    "scoring_flag db' = scoring_flag (example_db 5 [] []) @ new"
    "length new = length (scoring_service (example_db 5 [] [])) *
                  length (registration_team (example_db 5 [] []))"
    "map (\<lambda>flag. (flag_service_id flag, protecting_team_id flag)) new =
        List.product (map service_pk (scoring_service (example_db 5 [] [])))
          (map user_id (registration_team (example_db 5 [] [])))"
    by blast
  have "scoring_gamecontrol db' = Some (example_control 6)"
    "scoring_flag db' = new" "length new = 2"
    "map (\<lambda>flag. (flag_service_id flag, protecting_team_id flag)) new = [(1, 2), (1, 3)]"
    using r(2-5) by (simp_all add: example_defs)
  with r(1) have ex: "\<exists>db' new.
      main_loop_step (example_db 5 [] []) 1140 False = (db', [0]) \<and>
      scoring_gamecontrol db' = Some (example_control 6) \<and>
      scoring_flag db' = new \<and> length new = 2 \<and>
      map (\<lambda>flag. (flag_service_id flag, protecting_team_id flag)) new = [(1, 2), (1, 3)]"
    by (intro exI [of _ db'] exI [of _ new]) (simp only: simp_thms)
  from h3 have h3': "1140 < start (example_control 5) +
            int (valid_ticks (example_control 5)) * int (tick_duration (example_control 5))"
    by (simp only: simp_thms)
  from h1 h2 h3' h4 h5 ex show ?thesis by (intro conjI)
qed

text \<open>
  C7. For every database with a control row and every instant at or after the end of
  the competition window (\<open>start + valid_ticks * tick_duration\<close>), a step without
  \<open>nonstop\<close> yields the two idle durations 0 and 60, in this order, and leaves the
  database, with its current tick and its flags, as it was; so does every later step.
\<close>

theorem main_loop_step_after_end:
  assumes "scoring_gamecontrol db = Some control"
    and "start control + int (valid_ticks control) * int (tick_duration control) \<le> now"
  shows "main_loop_step db now False = (db, [0, 60]) \<and>
    (\<forall>later \<ge> now. main_loop_step (fst (main_loop_step db now False)) later False = (db, [0, 60]))"
proof -
  let ?window = "int (valid_ticks control) * int (tick_duration control)"
  have step: "main_loop_step db later False = (db, [0, 60])" if "now \<le> later" for later
  proof -
    have "0 \<le> ?window" by simp
    with assms(2) that have "\<not> later < start control" "\<not> later < start control + ?window"
      by linarith+
    with assms(1) show ?thesis by (simp add: main_loop_step_def Let_def)
  qed
  from step [of now] have "main_loop_step db now False = (db, [0, 60])" by simp
  with step show ?thesis by simp
qed

text \<open>
  The property at an example: 1860 seconds after the start the window of ten ticks of
  180 seconds has closed; the step then, and the step at 3300, idle for 0 and 60.
\<close>

theorem main_loop_step_after_end_witness:
  "scoring_gamecontrol (example_db 9 [] []) = Some (example_control 9) \<and>
   start (example_control 9) + int (valid_ticks (example_control 9)) *
                int (tick_duration (example_control 9)) \<le> 1860 \<and>
   main_loop_step (example_db 9 [] []) 1860 False = (example_db 9 [] [], [0, 60]) \<and>
   main_loop_step (fst (main_loop_step (example_db 9 [] []) 1860 False)) 3300 False
     = (example_db 9 [] [], [0, 60])"
proof -
  have c: "scoring_gamecontrol (example_db 9 [] []) = Some (example_control 9)"
    by (simp add: example_defs)
  have e: "start (example_control 9) + int (valid_ticks (example_control 9)) *
                int (tick_duration (example_control 9)) \<le> 1860"
    by (simp add: example_defs)
  note t = main_loop_step_after_end [OF c e]
  from t have a: "main_loop_step (example_db 9 [] []) 1860 False = (example_db 9 [] [], [0, 60])"
    by (rule conjunct1)
  from t have b: "\<forall>later \<ge> 1860.
      main_loop_step (fst (main_loop_step (example_db 9 [] []) 1860 False)) later False
        = (example_db 9 [] [], [0, 60])"
    by (rule conjunct2)
  have "(1860::int) \<le> 3300" by simp
  with b have "main_loop_step (fst (main_loop_step (example_db 9 [] []) 1860 False)) 3300 False
     = (example_db 9 [] [], [0, 60])"
    by blast
  with a c e show ?thesis by (intro conjI)
qed

end
